theory Spec2Isabelle
  imports Main "HOL-Library.Sublist" "HOL-Library.Word"
begin

section \<open>parallel-csv: the processor of \<^verbatim>\<open>processor.go\<close>\<close>

text \<open>
  Go strings and byte slices are sequences of bytes; both are modelled as \<open>string\<close>
  (a list of 8-bit \<open>char\<close>). \<^verbatim>\<open>LineBreak = "\n"\<close> is the one-byte string holding
  the byte 0x0A, and \<^verbatim>\<open>LineBreak[0]\<close> is that byte.
\<close>

abbreviation LF :: char where
  "LF \<equiv> CHR 0x0A"

definition LineBreak :: string where
  "LineBreak = [LF]"

subsection \<open>Errors\<close>

text \<open>
  \<open>EmptyFileError\<close>, \<open>HeaderNotFoundError\<close> and \<open>InvalidReaderError\<close> are the three
  \<^verbatim>\<open>Error\<close> constants of the package. \<open>EOF\<close> and \<open>ErrUnexpectedEOF\<close> are the two
  sentinel errors of package \<^verbatim>\<open>io\<close>; \<open>ReadFailure m\<close> stands for any other error that
  the underlying reader reports.
\<close>

datatype error =
    EmptyFileError
  | HeaderNotFoundError
  | InvalidReaderError
  | EOF
  | ErrUnexpectedEOF
  | ReadFailure string

text \<open>
  A panic is either \<^verbatim>\<open>panic(e)\<close> with one of the package's errors or a panic raised
  by the Go runtime (\<^verbatim>\<open>make\<close> with a negative size, a negative wait-group counter).
\<close>

datatype panic = PanicError error | RuntimePanic string

subsection \<open>Library functions on strings\<close>

text \<open>
  \<^verbatim>\<open>strings.Index(s, sep)\<close>: the index of the first instance of \<open>sep\<close> in \<open>s\<close>, or
  \<open>-1\<close> (here \<open>None\<close>) when there is none.
\<close>

fun Index :: "string \<Rightarrow> string \<Rightarrow> nat option" where
  "Index [] sep = (if sep = [] then Some 0 else None)"
| "Index (c # s) sep =
     (if prefix sep (c # s) then Some 0 else map_option Suc (Index s sep))"

text \<open>
  \<^verbatim>\<open>utf8.DecodeRuneInString(s)\<close> returns a rune and the number of bytes it occupies;
  only the width matters to \<^verbatim>\<open>strings.Split\<close>. The width is 0 for the empty
  string, 1 for an ASCII byte and for every invalid or truncated encoding, and 2 to 4
  for a well-formed multi-byte encoding, decided by the first byte and the range
  accepted for the second one.
\<close>

definition cont_byte :: "nat \<Rightarrow> bool" where
  "cont_byte b \<longleftrightarrow> 0x80 \<le> b \<and> b \<le> 0xBF"

definition first_width :: "nat \<Rightarrow> nat" where
  "first_width b =
     (if b < 0xC2 then 1
      else if b < 0xE0 then 2
      else if b < 0xF0 then 3
      else if b < 0xF5 then 4
      else 1)"

definition accept_lo :: "nat \<Rightarrow> nat" where
  "accept_lo b = (if b = 0xE0 then 0xA0 else if b = 0xF0 then 0x90 else 0x80)"

definition accept_hi :: "nat \<Rightarrow> nat" where
  "accept_hi b = (if b = 0xED then 0x9F else if b = 0xF4 then 0x8F else 0xBF)"

definition rune_width :: "string \<Rightarrow> nat" where
  "rune_width s =
     (case map of_char s of
        [] \<Rightarrow> 0
      | s0 # t \<Rightarrow>
          let sz = first_width s0 in
          if sz = 1 then 1
          else if length s < sz then 1
          else if t ! 0 < accept_lo s0 \<or> accept_hi s0 < t ! 0 then 1
          else if sz \<le> 2 then 2
          else if \<not> cont_byte (t ! 1) then 1
          else if sz \<le> 3 then 3
          else if \<not> cont_byte (t ! 2) then 1
          else 4)"

lemma rune_width_pos: "s \<noteq> [] \<Longrightarrow> 0 < rune_width s"
  by (cases s) (simp_all add: rune_width_def Let_def)

text \<open>
  \<^verbatim>\<open>explode(s, -1)\<close> of package \<^verbatim>\<open>strings\<close>: \<open>s\<close> cut into its UTF-8 sequences.
\<close>

function explode :: "string \<Rightarrow> string list" where
  "explode s =
     (if s = [] then []
      else take (rune_width s) s # explode (drop (rune_width s) s))"
  by pat_completeness auto
termination
  by (relation "measure length") (auto simp: rune_width_pos)

declare explode.simps [simp del]

lemma Index_bound: "Index s sep = Some m \<Longrightarrow> m + length sep \<le> length s"
proof (induction s arbitrary: m)
  case Nil
  then show ?case by (simp split: if_splits)
next
  case (Cons c s)
  show ?case
  proof (cases "prefix sep (c # s)")
    case True
    with Cons.prems have "m = 0" by simp
    moreover from True have "length sep \<le> length (c # s)" by (rule prefix_length_le)
    ultimately show ?thesis by simp
  next
    case False
    with Cons.prems obtain k where "Index s sep = Some k" "m = Suc k" by auto
    with Cons.IH show ?thesis by simp
  qed
qed

text \<open>
  \<^verbatim>\<open>strings.Split(s, sep)\<close> is \<^verbatim>\<open>genSplit(s, sep, 0, -1)\<close>: with an empty separator it
  explodes \<open>s\<close>; otherwise it cuts \<open>s\<close> at every instance of \<open>sep\<close> found from left to
  right, each search starting after the previous instance, and returns the pieces
  between them (one piece, \<open>s\<close> itself, when there is no instance).
\<close>

function Split :: "string \<Rightarrow> string \<Rightarrow> string list" where
  "Split s sep =
     (if sep = [] then explode s
      else case Index s sep of
             None \<Rightarrow> [s]
           | Some m \<Rightarrow> take m s # Split (drop (m + length sep) s) sep)"
  by pat_completeness auto
termination
proof (relation "measure (\<lambda>(s, sep). length s)")
  show "wf (measure (\<lambda>(s, sep). length s))" by simp
next
  fix s sep :: string and m :: nat
  assume "sep \<noteq> []" and "Index s sep = Some m"
  then have "m + length sep \<le> length s" and "length sep = Suc (length (tl sep))"
    by (simp_all add: Index_bound)
  then have "length (drop (m + length sep) s) < length s"
    by (simp del: length_tl)
  then show "((drop (m + length sep) s, sep), (s, sep)) \<in> measure (\<lambda>(s, sep). length s)"
    by simp
qed

declare Split.simps [simp del]

text \<open>
  \<^verbatim>\<open>strings.Count(s, sep)\<close>: the number of non-overlapping instances of \<open>sep\<close> in
  \<open>s\<close>, counted from left to right; for an empty separator, one more than the number
  of UTF-8 sequences of \<open>s\<close>.
\<close>

function Count :: "string \<Rightarrow> string \<Rightarrow> nat" where
  "Count s sep =
     (if sep = [] then length (explode s) + 1
      else case Index s sep of
             None \<Rightarrow> 0
           | Some m \<Rightarrow> Suc (Count (drop (m + length sep) s) sep))"
  by pat_completeness auto
termination
proof (relation "measure (\<lambda>(s, sep). length s)")
  show "wf (measure (\<lambda>(s, sep). length s))" by simp
next
  fix s sep :: string and m :: nat
  assume "sep \<noteq> []" and "Index s sep = Some m"
  then have "m + length sep \<le> length s" and "length sep = Suc (length (tl sep))"
    by (simp_all add: Index_bound)
  then have "length (drop (m + length sep) s) < length s"
    by (simp del: length_tl)
  then show "((drop (m + length sep) s, sep), (s, sep)) \<in> measure (\<lambda>(s, sep). length s)"
    by simp
qed

declare Count.simps [simp del]

text \<open>
  \<^verbatim>\<open>bytes.LastIndexByte(s, c)\<close>: the index of the last instance of \<open>c\<close> in \<open>s\<close>, or
  \<open>-1\<close> (here \<open>None\<close>); the scan runs from the last index down to 0.
\<close>

fun last_index_below :: "nat \<Rightarrow> string \<Rightarrow> char \<Rightarrow> nat option" where
  "last_index_below 0 s c = None"
| "last_index_below (Suc i) s c = (if s ! i = c then Some i else last_index_below i s c)"

definition LastIndexByte :: "string \<Rightarrow> char \<Rightarrow> nat option" where
  "LastIndexByte s c = last_index_below (length s) s c"


subsection \<open>Configuration\<close>

text \<open>
  The byte-size constants \<^verbatim>\<open>KB int = 1 << (10 * iota)\<close> with \<open>iota\<close> from 1 to 4.
\<close>

definition KB :: int where "KB = 2 ^ 10"
definition MB :: int where "MB = 2 ^ 20"
definition GB :: int where "GB = 2 ^ 30"
definition TB :: int where "TB = 2 ^ 40"

record HeaderConfig =
  HasHeader :: bool
  Separator :: string

record Config =
  NumberOfWorkers :: int
  HeaderConfig :: HeaderConfig
  BytesPerWorker :: int

definition GetDefaultConfig :: Config where
  "GetDefaultConfig =
     \<lparr>NumberOfWorkers = 8,
      HeaderConfig = \<lparr>HasHeader = True, Separator = '',''\<rparr>,
      BytesPerWorker = 10 * MB\<rparr>"

subsection \<open>The input stream\<close>

text \<open>
  The processor reads its input through a \<^verbatim>\<open>bufio.Reader\<close>. What the code can
  observe of it is the sequence of bytes not yet consumed (\<open>pending\<close>) and the way the
  stream ends once they are consumed: cleanly, with \<^verbatim>\<open>io.EOF\<close> (\<open>failure = None\<close>),
  or with an error \<open>ReadFailure m\<close> of the underlying reader (\<open>failure = Some m\<close>),
  an error other than \<^verbatim>\<open>io.EOF\<close> and \<^verbatim>\<open>io.ErrUnexpectedEOF\<close>. The end condition
  is reported again on every further read.
\<close>

record Reader =
  pending :: string
  failure :: "string option"

definition end_error :: "Reader \<Rightarrow> error" where
  "end_error r = (case failure r of None \<Rightarrow> EOF | Some m \<Rightarrow> ReadFailure m)"

text \<open>
  \<^verbatim>\<open>(*bufio.Reader).ReadString(delim)\<close> reads up to and including the first instance
  of \<open>delim\<close>. When the stream ends before a delimiter is found it returns the bytes
  read so far together with the error.
\<close>

definition ReadString :: "Reader \<Rightarrow> char \<Rightarrow> (string \<times> error option) \<times> Reader" where
  "ReadString r delim =
     (if delim \<in> set (pending r) then
        let line = takeWhile (\<lambda>c. c \<noteq> delim) (pending r) @ [delim]
        in ((line, None), r\<lparr>pending := drop (length line) (pending r)\<rparr>)
      else ((pending r, Some (end_error r)), r\<lparr>pending := []\<rparr>))"

text \<open>
  \<^verbatim>\<open>io.ReadFull(r, buf)\<close> with \<open>m = len(buf)\<close>: reads exactly \<open>m\<close> bytes. The result
  is the bytes stored in \<open>buf[0:n]\<close> and the error: none when \<open>m\<close> bytes were read
  (also when \<open>m = 0\<close>, where nothing is read at all), \<^verbatim>\<open>io.EOF\<close> when the stream
  ended before the first byte, \<^verbatim>\<open>io.ErrUnexpectedEOF\<close> when it ended after some but
  not all bytes, and the reader's own error when the stream failed.
\<close>

definition ReadFull :: "Reader \<Rightarrow> nat \<Rightarrow> (string \<times> error option) \<times> Reader" where
  "ReadFull r m =
     (if m \<le> length (pending r) then
        ((take m (pending r), None), r\<lparr>pending := drop m (pending r)\<rparr>)
      else
        ((pending r,
          Some (case failure r of
                  None \<Rightarrow> if pending r = [] then EOF else ErrUnexpectedEOF
                | Some e \<Rightarrow> ReadFailure e)),
         r\<lparr>pending := []\<rparr>))"

subsection \<open>Byte slices\<close>

text \<open>
  A Go slice \<^verbatim>\<open>[]byte\<close> that starts at the beginning of its backing array: \<open>arr\<close> is
  the backing array (its length is the capacity) and \<open>len\<close> the length of the slice.
  Every slice of the producer loop has this shape.
\<close>

record slice =
  arr :: string
  len :: nat

definition contents :: "slice \<Rightarrow> string" where
  "contents b = take (len b) (arr b)"

text \<open>\<^verbatim>\<open>make([]byte, 0, c)\<close>: a zeroed array of \<open>c\<close> bytes, length 0.\<close>

definition make_slice :: "nat \<Rightarrow> slice" where
  "make_slice c = \<lparr>arr = replicate c (CHR 0x00), len = 0\<rparr>"

text \<open>
  \<^verbatim>\<open>append(b, xs...)\<close>: \<open>xs\<close> is stored after the first \<open>len b\<close> bytes. In the loop
  \<open>xs\<close> always fits the capacity; a longer \<open>xs\<close> would get a larger array.
\<close>

definition append_slice :: "slice \<Rightarrow> string \<Rightarrow> slice" where
  "append_slice b xs =
     \<lparr>arr = take (len b) (arr b) @ xs @ drop (len b + length xs) (arr b),
      len = len b + length xs\<rparr>"

text \<open>
  Storing \<open>data\<close> into \<^verbatim>\<open>b[:cap(b)]\<close> from index 0, as \<^verbatim>\<open>io.ReadFull\<close> does with the
  bytes it reads, followed by \<^verbatim>\<open>b = b[:n]\<close> with \<open>n = length data\<close>.
\<close>

definition store_front :: "slice \<Rightarrow> string \<Rightarrow> slice" where
  "store_front b data = \<lparr>arr = data @ drop (length data) (arr b), len = length data\<rparr>"

subsection \<open>The processor\<close>

text \<open>
  \<^verbatim>\<open>workerData\<close> is what the producer sends to a worker. The job is a caller's function;
  the model is polymorphic in it and only records which job a chunk carries.
\<close>

record 'j workerData =
  job :: 'j
  data_header :: "string list"
  rows :: string

text \<open>
  The \<^verbatim>\<open>processor\<close> struct. Its channel \<^verbatim>\<open>blocks\<close> and its wait group \<^verbatim>\<open>wg\<close> carry no
  data of their own: the channel's capacity is \<open>NumberOfWorkers\<close>, and what is done
  with both is recorded in the trace of \<open>Run\<close> below.
\<close>

record processor =
  reader :: Reader
  header :: "string list"
  config :: Config


definition GetHeader :: "processor \<Rightarrow> string list" where
  "GetHeader p = header p"

text \<open>
  \<^verbatim>\<open>parseHeader\<close>: on success \<open>line\<close> ends with the line break, so \<^verbatim>\<open>line[:len(line)-1]\<close>
  is in range.
\<close>

definition parseHeader :: "processor \<Rightarrow> error option \<times> processor" where
  "parseHeader p =
     (case ReadString (reader p) (hd LineBreak) of
        ((line, err), r') \<Rightarrow>
          if err \<noteq> None then (Some HeaderNotFoundError, p\<lparr>reader := r'\<rparr>)
          else (None,
                p\<lparr>reader := r',
                  header := Split (take (length line - 1) line)
                              (Separator (HeaderConfig (config p)))\<rparr>))"

text \<open>
  \<^verbatim>\<open>NewProcessor\<close>: \<open>None\<close> stands for a nil reader and for a nil configuration.
  \<^verbatim>\<open>make(chan workerData, n)\<close> panics in the runtime when \<open>n\<close> is negative.
\<close>

definition config_or_default :: "Config option \<Rightarrow> Config" where
  "config_or_default cfg = (case cfg of None \<Rightarrow> GetDefaultConfig | Some c \<Rightarrow> c)"

definition NewProcessor :: "Reader option \<Rightarrow> Config option \<Rightarrow> panic + processor" where
  "NewProcessor rd cfg =
     (case rd of
        None \<Rightarrow> Inl (PanicError InvalidReaderError)
      | Some r \<Rightarrow>
          let config = config_or_default cfg in
          if NumberOfWorkers config < 0 then Inl (RuntimePanic ''makechan: size out of range'')
          else
            let p = \<lparr>reader = r, header = [], config = config\<rparr> in
            if HasHeader (HeaderConfig config) then
              (case parseHeader p of
                 (Some err, p') \<Rightarrow> Inl (PanicError HeaderNotFoundError)
               | (None, p') \<Rightarrow> Inr p')
            else Inr p)"

subsection \<open>Run\<close>

text \<open>
  What \<open>Run\<close> does to the wait group and the channel is recorded as a trace, in program
  order: \<open>Add n\<close> for \<^verbatim>\<open>wg.Add(n)\<close>, \<open>Go\<close> for each worker goroutine started,
  \<open>Send d\<close> for \<^verbatim>\<open>p.blocks <- d\<close>, \<open>Close\<close> for \<^verbatim>\<open>close(p.blocks)\<close> and \<open>Wait\<close> for
  \<^verbatim>\<open>p.wg.Wait()\<close>.
\<close>

datatype 'j event = Add int | Go | Send "'j workerData" | Close | Wait

datatype outcome = Returned "error option" | Panicked panic

text \<open>
  A worker handles one chunk: it splits the chunk's bytes at the line breaks and calls the
  job once with the header and the lines. \<open>worker\<close> gives the arguments of that call.
\<close>

definition worker :: "'j workerData \<Rightarrow> string list \<times> string list" where
  "worker d = (data_header d, Split (rows d) LineBreak)"

text \<open>
  The state of the producer loop: the reader, \<open>tot\<close> (a Go \<open>int\<close>, 64 bits wide, which
  \<open>tot += n\<close> wraps), the buffer, and the trace so far.
\<close>

record 'j loop_state =
  rd :: Reader
  tot :: "64 word"
  buffer :: slice
  trace :: "'j event list"

text \<open>
  One iteration of \<^verbatim>\<open>for { ... }\<close> ends in one of four ways: the loop goes on (\<open>Next\<close>),
  it is left by \<^verbatim>\<open>break\<close> (\<open>Break\<close>), \<open>Run\<close> returns an error from inside the loop
  (\<open>Return\<close>), or the send \<^verbatim>\<open>p.blocks <- ...\<close> never completes (\<open>Blocked\<close>). The last
  happens when no worker was started: the channel then has capacity 0 and no receiver.
  With at least one worker a send completes, the job being assumed to return.
\<close>

datatype 'j step = Next "'j loop_state" | Break "'j loop_state" | Return "'j loop_state" error | Blocked

text \<open>
  The second half of the loop body: the search for the last line break, the send and the
  carrying of the remainder into a fresh buffer. The chunk sent is a slice of the buffer's
  array; the buffer is replaced by a fresh one right after the send and the old array is
  never written again, so the bytes of a chunk do not change once it is sent, and the
  model sends their value.
\<close>

definition emit :: "Config \<Rightarrow> 'j \<Rightarrow> string list \<Rightarrow> 'j loop_state \<Rightarrow> 'j step" where
  "emit cfg j h st =
     (case LastIndexByte (contents (buffer st)) (hd LineBreak) of
        None \<Rightarrow> Next st
      | Some lastIndex \<Rightarrow>
          if NumberOfWorkers cfg = 0 then Blocked
          else
            Next (st\<lparr>trace := trace st @
                         [Send \<lparr>job = j, data_header = h,
                                rows = take lastIndex (contents (buffer st))\<rparr>],
                     buffer := append_slice (make_slice (nat (BytesPerWorker cfg)))
                                 (drop lastIndex (contents (buffer st)))\<rparr>))"

text \<open>
  The whole loop body: \<^verbatim>\<open>io.ReadFull(p.reader, buffer[:cap(buffer)])\<close> stores the bytes
  it reads from index 0 of the buffer's array, then \<open>tot\<close> and the buffer's length are
  set, then the error is examined.
\<close>

definition iteration :: "Config \<Rightarrow> 'j \<Rightarrow> string list \<Rightarrow> 'j loop_state \<Rightarrow> 'j step" where
  "iteration cfg j h st =
     (case ReadFull (rd st) (length (arr (buffer st))) of
        ((data, err), r') \<Rightarrow>
          let st1 = st\<lparr>rd := r',
                       tot := tot st + of_nat (length data),
                       buffer := store_front (buffer st) data\<rparr>
          in
            case err of
              None \<Rightarrow> emit cfg j h st1
            | Some e \<Rightarrow>
                if e = EOF then
                  (if tot st1 = 0 then Return st1 EmptyFileError else Break st1)
                else if e \<noteq> ErrUnexpectedEOF then Return st1 e
                else emit cfg j h st1)"

text \<open>
  The loop and what follows it: after \<^verbatim>\<open>break\<close> the channel is closed, the workers are
  waited for and \<open>Run\<close> returns nil; an error returned from inside the loop skips both.
  The result is \<open>None\<close> when \<open>Run\<close> never returns: when a send blocks for ever, and when
  the loop runs for ever, which it does with a buffer of capacity 0 (every
  \<^verbatim>\<open>io.ReadFull\<close> then reads nothing and reports no error).
\<close>

partial_function (option) producer ::
  "Config \<Rightarrow> 'j \<Rightarrow> string list \<Rightarrow> 'j loop_state \<Rightarrow> ('j event list \<times> outcome) option" where
  "producer cfg j h st =
     (case iteration cfg j h st of
        Next st' \<Rightarrow> producer cfg j h st'
      | Break st' \<Rightarrow> Some (trace st' @ [Close, Wait], Returned None)
      | Return st' e \<Rightarrow> Some (trace st', Returned (Some e))
      | Blocked \<Rightarrow> None)"

declare producer.simps [code]

text \<open>
  \<open>Run\<close>: the workers are started first; \<^verbatim>\<open>wg.Add\<close> panics on a negative counter and
  \<^verbatim>\<open>make([]byte, 0, c)\<close> on a negative capacity. Memory for the channel and for the
  buffer is assumed to be there when the size is not negative.
\<close>

definition Run :: "processor \<Rightarrow> 'j \<Rightarrow> ('j event list \<times> outcome) option" where
  "Run p j =
     (let n = NumberOfWorkers (config p) in
      if n < 0 then Some ([], Panicked (RuntimePanic ''sync: negative WaitGroup counter''))
      else
        let tr = Add n # replicate (nat n) Go in
        if BytesPerWorker (config p) < 0 then
          Some (tr, Panicked (RuntimePanic ''makeslice: cap out of range''))
        else
          producer (config p) j (header p)
            \<lparr>rd = reader p, tot = 0,
             buffer = make_slice (nat (BytesPerWorker (config p))),
             trace = tr\<rparr>)"

text \<open>The chunks sent in a trace, in the order of sending, and the calls of the job they lead to.\<close>

fun sent :: "'j event list \<Rightarrow> 'j workerData list" where
  "sent [] = []"
| "sent (Send d # es) = d # sent es"
| "sent (e # es) = sent es"

definition invocations :: "'j event list \<Rightarrow> (string list \<times> string list) list" where
  "invocations tr = map worker (sent tr)"

subsection \<open>Notions used in the statements and proofs\<close>

text \<open>The event of sending the bytes \<open>x\<close> as a chunk.\<close>

abbreviation chunk :: "'j \<Rightarrow> string list \<Rightarrow> string \<Rightarrow> 'j event" where
  "chunk j h x \<equiv> Send \<lparr>job = j, data_header = h, rows = x\<rparr>"

text \<open>The state after the first three statements of the loop body.\<close>

definition filled :: "'j loop_state \<Rightarrow> 'j loop_state" where
  "filled st =
     (let c = length (arr (buffer st)); data = take c (pending (rd st)) in
      st\<lparr>rd := (rd st)\<lparr>pending := drop c (pending (rd st))\<rparr>,
         tot := tot st + of_nat (length data),
         buffer := store_front (buffer st) data\<rparr>)"

text \<open>The state in which \<open>Run\<close> enters the loop.\<close>

definition started :: "processor \<Rightarrow> 'j loop_state" where
  "started p =
     \<lparr>rd = reader p, tot = 0,
      buffer = make_slice (nat (BytesPerWorker (config p))),
      trace = Add (NumberOfWorkers (config p)) # replicate (nat (NumberOfWorkers (config p))) Go\<rparr>"

text \<open>What the end of \<open>Run\<close> adds to the trace, and a list of chunks with their line breaks.\<close>

definition closing :: "outcome \<Rightarrow> 'j event list" where
  "closing out = (if out = Returned None then [Close, Wait] else [])"

definition with_breaks :: "string list \<Rightarrow> string" where
  "with_breaks xs = concat (map (\<lambda>x. x @ [LF]) xs)"

section \<open>Facts about the library functions\<close>

lemma last_index_below_None: "last_index_below n s c = None \<longleftrightarrow> (\<forall>i<n. s ! i \<noteq> c)"
  by (induction n) (auto simp: less_Suc_eq)

lemma last_index_below_Some:
  "last_index_below n s c = Some k \<longleftrightarrow> k < n \<and> s ! k = c \<and> (\<forall>i. k < i \<and> i < n \<longrightarrow> s ! i \<noteq> c)"
proof (induction n)
  case 0
  then show ?case by simp
next
  case (Suc n)
  show ?case
  proof (cases "s ! n = c")
    case True
    then show ?thesis
      by (auto simp: less_Suc_eq intro: linorder_cases [of k n])
  next
    case False
    then show ?thesis
      using Suc by (auto simp: less_Suc_eq)
  qed
qed

lemma LastIndexByte_None: "LastIndexByte s c = None \<longleftrightarrow> c \<notin> set s"
  by (auto simp: LastIndexByte_def last_index_below_None in_set_conv_nth)

lemma LastIndexByte_Some:
  assumes "LastIndexByte s c = Some k"
  shows "k < length s" and "s ! k = c" and "c \<notin> set (drop (Suc k) s)"
    and "s = take k s @ c # drop (Suc k) s"
proof -
  from assms have k: "k < length s" "s ! k = c" and after: "\<forall>i. k < i \<and> i < length s \<longrightarrow> s ! i \<noteq> c"
    by (simp_all add: LastIndexByte_def last_index_below_Some)
  show "k < length s" "s ! k = c" by fact+
  show "c \<notin> set (drop (Suc k) s)"
  proof
    assume "c \<in> set (drop (Suc k) s)"
    then obtain i where "i < length (drop (Suc k) s)" "drop (Suc k) s ! i = c"
      by (auto simp: in_set_conv_nth)
    then have "Suc k + i < length s" "s ! (Suc k + i) = c" by auto
    with after show False by auto
  qed
  from k id_take_nth_drop [of k s] show "s = take k s @ c # drop (Suc k) s"
    by simp
qed

section \<open>Facts about construction\<close>

lemma takeWhile_until:
  "c \<notin> set xs \<Longrightarrow> takeWhile (\<lambda>x. x \<noteq> c) (xs @ c # ys) = xs"
  by (induction xs) auto

lemma ReadString_line:
  assumes "LF \<notin> set line"
  shows "ReadString \<lparr>pending = line @ LF # rest, failure = f\<rparr> LF =
           ((line @ [LF], None), \<lparr>pending = rest, failure = f\<rparr>)"
proof -
  from assms have "takeWhile (\<lambda>c. c \<noteq> LF) (line @ LF # rest) = line"
    by (rule takeWhile_until)
  then show ?thesis
    by (simp add: ReadString_def Let_def)
qed

lemma ReadString_no_line:
  assumes "LF \<notin> set (pending r)"
  shows "fst (ReadString r LF) = (pending r, Some (end_error r))"
  using assms by (simp add: ReadString_def)

lemma parseHeader_line:
  assumes "LF \<notin> set line" and "reader p = \<lparr>pending = line @ LF # rest, failure = f\<rparr>"
  shows "parseHeader p =
           (None, p\<lparr>reader := \<lparr>pending = rest, failure = f\<rparr>,
                    header := Split line (Separator (HeaderConfig (config p)))\<rparr>)"
  using assms by (simp add: parseHeader_def ReadString_line LineBreak_def)

lemma parseHeader_no_line:
  assumes "LF \<notin> set (pending (reader p))"
  shows "fst (parseHeader p) = Some HeaderNotFoundError"
  using assms by (simp add: parseHeader_def ReadString_def LineBreak_def)

lemma NewProcessor_header:
  assumes "LF \<notin> set line" and "HasHeader (HeaderConfig (config_or_default cfg))"
    and "0 \<le> NumberOfWorkers (config_or_default cfg)"
  shows "NewProcessor (Some \<lparr>pending = line @ LF # rest, failure = f\<rparr>) cfg =
           Inr \<lparr>reader = \<lparr>pending = rest, failure = f\<rparr>,
                header = Split line (Separator (HeaderConfig (config_or_default cfg))),
                config = config_or_default cfg\<rparr>"
  using assms by (simp add: NewProcessor_def Let_def parseHeader_line)

lemma NewProcessor_no_header:
  assumes "\<not> HasHeader (HeaderConfig (config_or_default cfg))"
    and "0 \<le> NumberOfWorkers (config_or_default cfg)"
  shows "NewProcessor (Some r) cfg = Inr \<lparr>reader = r, header = [], config = config_or_default cfg\<rparr>"
  using assms by (simp add: NewProcessor_def Let_def)

lemma NewProcessor_no_line:
  assumes "LF \<notin> set (pending r)"
    and "HasHeader (HeaderConfig (config_or_default cfg))"
    and "0 \<le> NumberOfWorkers (config_or_default cfg)"
  shows "NewProcessor (Some r) cfg = Inl (PanicError HeaderNotFoundError)"
proof -
  let ?p = "\<lparr>reader = r, header = [], config = config_or_default cfg\<rparr>"
  from assms(1) have "fst (parseHeader ?p) = Some HeaderNotFoundError"
    by (simp add: parseHeader_no_line)
  then obtain p' where "parseHeader ?p = (Some HeaderNotFoundError, p')"
    by (cases "parseHeader ?p") simp
  with assms(2,3) show ?thesis
    by (simp add: NewProcessor_def Let_def)
qed

lemma Reader_eq: "(r :: Reader) = \<lparr>pending = pending r, failure = failure r\<rparr>"
  by simp

lemma NewProcessor_Inr:
  assumes "NewProcessor (Some r) cfg = Inr p"
  shows "config p = config_or_default cfg" and "0 \<le> NumberOfWorkers (config p)"
    and "if HasHeader (HeaderConfig (config p))
         then \<exists>line rest. LF \<notin> set line \<and> pending r = line @ LF # rest
                \<and> reader p = \<lparr>pending = rest, failure = failure r\<rparr>
                \<and> header p = Split line (Separator (HeaderConfig (config p)))
         else reader p = r \<and> header p = []"
proof -
  define c where "c = config_or_default cfg"
  from assms have w: "0 \<le> NumberOfWorkers c"
    by (auto simp: NewProcessor_def Let_def c_def split: if_splits)
  have "config p = c \<and> (if HasHeader (HeaderConfig c)
         then \<exists>line rest. LF \<notin> set line \<and> pending r = line @ LF # rest
                \<and> reader p = \<lparr>pending = rest, failure = failure r\<rparr>
                \<and> header p = Split line (Separator (HeaderConfig c))
         else reader p = r \<and> header p = [])"
  proof (cases "HasHeader (HeaderConfig c)")
    case False
    with w assms show ?thesis
      by (auto simp: NewProcessor_no_header c_def)
  next
    case True
    have "LF \<in> set (pending r)"
    proof (rule ccontr)
      assume "LF \<notin> set (pending r)"
      with True w have "NewProcessor (Some r) cfg = Inl (PanicError HeaderNotFoundError)"
        unfolding c_def by (intro NewProcessor_no_line) simp_all
      with assms show False by simp
    qed
    then obtain line rest where split: "pending r = line @ LF # rest" "LF \<notin> set line"
      by (auto dest: split_list_first)
    then have "r = \<lparr>pending = line @ LF # rest, failure = failure r\<rparr>"
      by (metis Reader_eq)
    with NewProcessor_header [of line cfg rest "failure r"] split(2) True w assms
    have "p = \<lparr>reader = \<lparr>pending = rest, failure = failure r\<rparr>,
                header = Split line (Separator (HeaderConfig c)), config = c\<rparr>"
      by (simp add: c_def)
    with True split show ?thesis by auto
  qed
  with w show "config p = config_or_default cfg" and "0 \<le> NumberOfWorkers (config p)"
    and "if HasHeader (HeaderConfig (config p))
         then \<exists>line rest. LF \<notin> set line \<and> pending r = line @ LF # rest
                \<and> reader p = \<lparr>pending = rest, failure = failure r\<rparr>
                \<and> header p = Split line (Separator (HeaderConfig (config p)))
         else reader p = r \<and> header p = []"
    unfolding c_def by (auto split: if_splits)
qed

section \<open>Construction\<close>

text \<open>
  Claim C7. With header mode enabled, a stream that holds no line-break byte before it
  ends (the empty stream included) makes \<open>NewProcessor\<close> panic with
  \<open>HeaderNotFoundError\<close>: no processor is returned. The configuration is the caller's or,
  when none is given, the default one; its worker count is not negative, so that the
  channel can be created at all.
\<close>

theorem C7_header_not_found:
  assumes "LF \<notin> set (pending r)"
    and "HasHeader (HeaderConfig (config_or_default cfg))"
    and "0 \<le> NumberOfWorkers (config_or_default cfg)"
  shows "NewProcessor (Some r) cfg = Inl (PanicError HeaderNotFoundError)"
proof -
  let ?p = "\<lparr>reader = r, header = [], config = config_or_default cfg\<rparr>"
  from assms(1) have "fst (parseHeader ?p) = Some HeaderNotFoundError"
    by (simp add: parseHeader_no_line)
  then obtain p' where "parseHeader ?p = (Some HeaderNotFoundError, p')"
    by (cases "parseHeader ?p") simp
  with assms(2,3) show ?thesis
    by (simp add: NewProcessor_def Let_def)
qed

theorem C7_header_not_found_witness:
  "NewProcessor (Some \<lparr>pending = ''a,b'', failure = None\<rparr>) None = Inl (PanicError HeaderNotFoundError)
   \<and> NewProcessor (Some \<lparr>pending = [], failure = None\<rparr>)
        (Some \<lparr>NumberOfWorkers = 2, HeaderConfig = \<lparr>HasHeader = True, Separator = ''|''\<rparr>,
               BytesPerWorker = 5 * KB\<rparr>) = Inl (PanicError HeaderNotFoundError)"
  using C7_header_not_found [of "\<lparr>pending = ''a,b'', failure = None\<rparr>" None]
    C7_header_not_found [of "\<lparr>pending = [], failure = None\<rparr>"
      "Some \<lparr>NumberOfWorkers = 2, HeaderConfig = \<lparr>HasHeader = True, Separator = ''|''\<rparr>,
             BytesPerWorker = 5 * KB\<rparr>"]
  by (simp add: config_or_default_def GetDefaultConfig_def)

section \<open>Facts about the producer loop\<close>

lemma store_front_contents: "length data \<le> length (arr b) \<Longrightarrow> contents (store_front b data) = data"
  by (simp add: store_front_def contents_def)

lemma store_front_cap: "length data \<le> length (arr b) \<Longrightarrow> length (arr (store_front b data)) = length (arr b)"
  by (simp add: store_front_def)

lemma append_make_cap: "length xs \<le> c \<Longrightarrow> length (arr (append_slice (make_slice c) xs)) = c"
  by (simp add: append_slice_def make_slice_def)

lemma append_make_contents: "contents (append_slice (make_slice c) xs) = xs"
  by (simp add: append_slice_def make_slice_def contents_def)

lemma iteration_unfold:
  "iteration cfg j h st =
     (if length (arr (buffer st)) \<le> length (pending (rd st)) then emit cfg j h (filled st)
      else case failure (rd st) of
             None \<Rightarrow>
               if pending (rd st) = [] then
                 (if tot st = 0 then Return (filled st) EmptyFileError else Break (filled st))
               else emit cfg j h (filled st)
           | Some e \<Rightarrow> Return (filled st) (ReadFailure e))"
  by (simp add: iteration_def ReadFull_def filled_def Let_def split: option.split)

lemma emit_filled:
  assumes "length (arr (buffer st)) = c"
  shows "emit cfg j h (filled st) =
     (case LastIndexByte (take c (pending (rd st))) LF of
        None \<Rightarrow> Next (filled st)
      | Some k \<Rightarrow>
          if NumberOfWorkers cfg = 0 then Blocked
          else Next ((filled st)\<lparr>trace := trace st @ [chunk j h (take k (take c (pending (rd st))))],
                               buffer := append_slice (make_slice (nat (BytesPerWorker cfg)))
                                           (drop k (take c (pending (rd st))))\<rparr>))"
proof -
  have "contents (buffer (filled st)) = take c (pending (rd st))"
    using assms by (simp add: filled_def Let_def store_front_contents)
  moreover have "trace (filled st) = trace st"
    by (simp add: filled_def Let_def)
  ultimately show ?thesis
    by (simp add: emit_def LineBreak_def split: option.split)
qed

lemma filled_simps:
  "trace (filled st) = trace st"
  "pending (rd (filled st)) = drop (length (arr (buffer st))) (pending (rd st))"
  "failure (rd (filled st)) = failure (rd st)"
  "tot (filled st) = tot st + of_nat (length (take (length (arr (buffer st))) (pending (rd st))))"
  "length (arr (buffer (filled st))) = length (arr (buffer st))"
  by (simp_all add: filled_def Let_def store_front_def)

lemma unat_tot_add:
  fixes t :: "64 word"
  assumes "unat t + n < 2 ^ 64"
  shows "unat (t + of_nat n) = unat t + n"
proof -
  from assms have n: "unat (of_nat n :: 64 word) = n"
    by (simp add: unat_of_nat)
  with assms have "unat t + unat (of_nat n :: 64 word) < 2 ^ LENGTH(64)"
    by simp
  then have "unat (t + of_nat n) = unat t + unat (of_nat n :: 64 word)"
    by (simp only: unat_add_lem)
  with n show ?thesis by simp
qed

text \<open>What an iteration that goes on has done.\<close>

lemma iteration_Next:
  assumes "iteration cfg j h st = Next st'"
  defines "c \<equiv> length (arr (buffer st))"
  defines "data \<equiv> take c (pending (rd st))"
  shows "pending (rd st') = drop c (pending (rd st))"
    and "failure (rd st') = failure (rd st)"
    and "tot st' = tot st + of_nat (length data)"
    and "0 < c \<Longrightarrow> data \<noteq> []"
    and "case LastIndexByte data LF of
           None \<Rightarrow> trace st' = trace st \<and> length (arr (buffer st')) = c
         | Some k \<Rightarrow> NumberOfWorkers cfg \<noteq> 0 \<and> trace st' = trace st @ [chunk j h (take k data)]
             \<and> buffer st' = append_slice (make_slice (nat (BytesPerWorker cfg))) (drop k data)"
proof -
  have e: "emit cfg j h (filled st) = Next st'" and ne: "0 < c \<Longrightarrow> pending (rd st) \<noteq> []"
    using assms(1) unfolding c_def
    by (auto simp: iteration_unfold split: if_splits option.splits)
  from ne show "0 < c \<Longrightarrow> data \<noteq> []"
    by (auto simp: data_def)
  from e have cases: "case LastIndexByte data LF of
      None \<Rightarrow> st' = filled st
    | Some k \<Rightarrow> NumberOfWorkers cfg \<noteq> 0 \<and>
        st' = (filled st)\<lparr>trace := trace st @ [chunk j h (take k data)],
                buffer := append_slice (make_slice (nat (BytesPerWorker cfg))) (drop k data)\<rparr>"
    unfolding data_def c_def
    by (auto simp: emit_filled split: option.splits if_splits)
  then show "pending (rd st') = drop c (pending (rd st))"
    and "failure (rd st') = failure (rd st)"
    and "tot st' = tot st + of_nat (length data)"
    and "case LastIndexByte data LF of
           None \<Rightarrow> trace st' = trace st \<and> length (arr (buffer st')) = c
         | Some k \<Rightarrow> NumberOfWorkers cfg \<noteq> 0 \<and> trace st' = trace st @ [chunk j h (take k data)]
             \<and> buffer st' = append_slice (make_slice (nat (BytesPerWorker cfg))) (drop k data)"
    unfolding data_def c_def
    by (auto simp: filled_simps split: option.splits)
qed

lemma iteration_Break:
  assumes "iteration cfg j h st = Break st'"
  shows "trace st' = trace st" and "pending (rd st) = []" and "failure (rd st) = None"
    and "tot st \<noteq> 0" and "0 < length (arr (buffer st))"
  using assms
  by (auto simp: iteration_unfold emit_filled filled_simps split: if_splits option.splits)

lemma iteration_Return:
  assumes "iteration cfg j h st = Return st' e"
  shows "trace st' = trace st"
    and "e = EmptyFileError \<and> pending (rd st) = [] \<and> failure (rd st) = None \<and> tot st = 0
         \<or> (\<exists>m. e = ReadFailure m \<and> failure (rd st) = Some m)"
  using assms
  by (auto simp: iteration_unfold emit_filled filled_simps split: if_splits option.splits)

text \<open>
  Partial correctness: when the loop returns, the trace has grown by the chunks sent and,
  after a \<^verbatim>\<open>break\<close>, by the closing of the channel and the wait. Every chunk is a run of
  consecutive bytes of the stream as it stood when the loop started, followed there by a
  line break, and the chunks lie in the stream in the order of sending, without overlap.
\<close>

lemma producer_trace:
  assumes "producer cfg j h st = Some y"
  shows "\<exists>xs. fst y = trace st @ map (chunk j h) xs @ closing (snd y)
           \<and> (\<forall>x\<in>set xs. sublist (x @ [LF]) (pending (rd st)))
           \<and> subseq (with_breaks xs) (pending (rd st))
           \<and> (\<exists>e. snd y = Returned e)"
  using assms
proof (induction rule: producer.raw_induct [rotated 1, consumes 1])
  case (1 producer cfg j h st y)
  show ?case
  proof (cases "iteration cfg j h st")
    case (Next st')
    define c where "c = length (arr (buffer st))"
    define d where "d = pending (rd st)"
    define data where "data = take c d"
    note it = iteration_Next [OF Next, folded c_def d_def data_def]
    from 1(2) Next have "producer cfg j h st' = Some y" by simp
    from 1(1) [OF this] obtain xs where
      xs: "fst y = trace st' @ map (chunk j h) xs @ closing (snd y)"
        "\<forall>x\<in>set xs. sublist (x @ [LF]) (pending (rd st'))"
        "subseq (with_breaks xs) (pending (rd st'))"
        "\<exists>e. snd y = Returned e"
      by blast
    have d: "d = data @ drop c d"
      by (simp add: data_def)
    have sub: "sublist x d" if "sublist x (drop c d)" for x
      using that sublist_drop [of c d] by (rule sublist_order.order_trans)
    show ?thesis
    proof (cases "LastIndexByte data LF")
      case None
      with it(5) have "trace st' = trace st" by simp
      moreover have "subseq (with_breaks xs) d"
        using xs(3) it(1) d subseq_drop_many [of "with_breaks xs" "drop c d" data] by simp
      ultimately show ?thesis
        using xs it(1) sub unfolding d_def by auto
    next
      case (Some k)
      with it(5) have tr: "trace st' = trace st @ [chunk j h (take k data)]" by simp
      from LastIndexByte_Some(4) [OF Some] have data: "data = take k data @ LF # drop (Suc k) data" .
      have dd: "d = (take k data @ [LF]) @ (drop (Suc k) data @ drop c d)"
        using d data by (metis append.assoc append_Cons append_Nil)
      have "sublist (take k data @ [LF]) d"
        by (subst dd) (rule sublist_append_rightI)
      moreover have "subseq (with_breaks (take k data # xs)) d"
      proof -
        have "subseq (with_breaks xs) (drop (Suc k) data @ drop c d)"
          using xs(3) it(1) by (simp add: subseq_drop_many)
        then have "subseq ((take k data @ [LF]) @ with_breaks xs)
                     ((take k data @ [LF]) @ (drop (Suc k) data @ drop c d))"
          by (simp only: subseq_append')
        with dd show ?thesis by (simp add: with_breaks_def)
      qed
      moreover have "fst y = trace st @ map (chunk j h) (take k data # xs) @ closing (snd y)"
        using xs(1) tr by simp
      moreover have "\<forall>x\<in>set xs. sublist (x @ [LF]) d"
        using xs(2) it(1) sub by simp
      ultimately show ?thesis
        using xs(4) unfolding d_def
        by (intro exI [of _ "take k data # xs"]) simp
    qed
  next
    case (Break st')
    with 1(2) iteration_Break(1) [OF Break] show ?thesis
      by (intro exI [of _ "[]"]) (auto simp: closing_def with_breaks_def)
  next
    case (Return st' e)
    with 1(2) iteration_Return(1) [OF Return] show ?thesis
      by (intro exI [of _ "[]"]) (auto simp: closing_def with_breaks_def)
  next
    case Blocked
    with 1(2) show ?thesis by simp
  qed
qed


lemma producer_EmptyFile:
  assumes "producer cfg j h st = Some y" and "snd y = Returned (Some EmptyFileError)"
    and "0 < length (arr (buffer st))"
    and "length (arr (buffer st)) = nat (BytesPerWorker cfg)"
    and "unat (tot st) + length (pending (rd st)) < 2 ^ 64"
  shows "tot st = 0 \<and> pending (rd st) = [] \<and> failure (rd st) = None"
  using assms
proof (induction rule: producer.raw_induct [rotated 1, consumes 1])
  case (1 producer cfg j h st y)
  show ?case
  proof (cases "iteration cfg j h st")
    case (Next st')
    define c where "c = length (arr (buffer st))"
    define data where "data = take c (pending (rd st))"
    note it = iteration_Next [OF Next, folded c_def data_def]
    from 1(4) it(4) have ne: "data \<noteq> []" by (simp add: c_def)
    have len: "length data + length (pending (rd st')) = length (pending (rd st))"
      using it(1) by (simp add: data_def)
    with 1(6) have "unat (tot st) + length data < 2 ^ 64" by simp
    then have u: "unat (tot st') = unat (tot st) + length data"
      using it(3) by (simp add: unat_tot_add)
    with ne have nz: "tot st' \<noteq> 0"
      by (auto simp: unat_0_iff [symmetric] simp del: unat_0_iff unat_eq_0)
    have cap: "length (arr (buffer st')) = nat (BytesPerWorker cfg)"
    proof (cases "LastIndexByte data LF")
      case None
      with it(5) 1(5) show ?thesis by (simp add: c_def)
    next
      case (Some k)
      with it(5) have "buffer st' = append_slice (make_slice (nat (BytesPerWorker cfg))) (drop k data)"
        by simp
      moreover have "length (drop k data) \<le> nat (BytesPerWorker cfg)"
        using 1(5) by (simp add: data_def c_def)
      ultimately show ?thesis by (simp add: append_make_cap)
    qed
    from 1(2) Next have "producer cfg j h st' = Some y" by simp
    from 1(1) [OF this 1(3)] cap 1(4,5) u len 1(6) have "tot st' = 0"
      by simp
    with nz show ?thesis by simp
  next
    case (Break st')
    with 1(2,3) show ?thesis by auto
  next
    case (Return st' e)
    with 1(2,3) iteration_Return(2) [OF Return] show ?thesis by auto
  next
    case Blocked
    with 1(2) show ?thesis by simp
  qed
qed

lemma producer_at_end:
  assumes "pending (rd st) = []" and "0 < length (arr (buffer st))"
  shows "producer cfg j h st =
           Some (case failure (rd st) of
                   None \<Rightarrow> if tot st = 0 then (trace st, Returned (Some EmptyFileError))
                           else (trace st @ [Close, Wait], Returned None)
                 | Some m \<Rightarrow> (trace st, Returned (Some (ReadFailure m))))"
  using assms
  by (subst producer.simps) (simp add: iteration_unfold filled_simps split: option.split)

section \<open>Facts about Run\<close>

lemma Run_producer:
  assumes "0 \<le> NumberOfWorkers (config p)" and "0 \<le> BytesPerWorker (config p)"
  shows "Run p j = producer (config p) j (header p) (started p)"
  using assms by (simp add: Run_def started_def Let_def)

lemma started_simps:
  "rd (started p) = reader p"
  "tot (started p) = 0"
  "length (arr (buffer (started p))) = nat (BytesPerWorker (config p))"
  "trace (started p) = Add (NumberOfWorkers (config p)) # replicate (nat (NumberOfWorkers (config p))) Go"
  by (simp_all add: started_def make_slice_def)

lemma sent_append: "sent (xs @ ys) = sent xs @ sent ys"
  by (induction xs rule: sent.induct) simp_all

lemma sent_replicate_Go: "sent (replicate n Go) = []"
  by (induction n) simp_all

lemma sent_chunks: "sent (map (chunk j h) xs) = map (\<lambda>x. \<lparr>job = j, data_header = h, rows = x\<rparr>) xs"
  by (induction xs) simp_all

lemma sent_closing: "sent (closing out) = []"
  by (simp add: closing_def)

lemma Run_cases:
  assumes "Run p j = Some (tr, out)"
  obtains e where "out = Panicked e" and "sent tr = []"
  | e where "out = Returned e"
      and "producer (config p) j (header p) (started p) = Some (tr, out)"
      and "0 \<le> NumberOfWorkers (config p)" and "0 \<le> BytesPerWorker (config p)"
proof (cases "NumberOfWorkers (config p) < 0 \<or> BytesPerWorker (config p) < 0")
  case True
  with assms have "\<exists>e. out = Panicked e" and "sent tr = []"
    by (auto simp: Run_def Let_def sent_replicate_Go split: if_splits)
  with that(1) show ?thesis by blast
next
  case False
  with assms have run: "producer (config p) j (header p) (started p) = Some (tr, out)"
    by (simp add: Run_producer)
  from producer_trace [OF this] obtain e where "out = Returned e" by auto
  with that(2) run False show ?thesis by simp
qed

lemma Run_trace:
  assumes "Run p j = Some (tr, out)"
  shows "\<exists>xs. sent tr = map (\<lambda>x. \<lparr>job = j, data_header = header p, rows = x\<rparr>) xs
           \<and> (\<forall>x\<in>set xs. sublist (x @ [LF]) (pending (reader p)))
           \<and> subseq (with_breaks xs) (pending (reader p))"
  using assms
proof (cases rule: Run_cases)
  case (1 e)
  then show ?thesis
    by (intro exI [of _ "[]"]) (simp add: with_breaks_def)
next
  case (2 e)
  from producer_trace [OF 2(2)] obtain xs where
    "tr = trace (started p) @ map (chunk j (header p)) xs @ closing out"
    "\<forall>x\<in>set xs. sublist (x @ [LF]) (pending (reader p))"
    "subseq (with_breaks xs) (pending (reader p))"
    by (auto simp: started_simps)
  then show ?thesis
    by (intro exI [of _ xs])
      (simp add: started_simps sent_append sent_replicate_Go sent_chunks sent_closing)
qed



text \<open>
  With a buffer of capacity 0 every iteration reads nothing, finds no line break and goes
  on: the loop never returns.
\<close>

lemma producer_empty_buffer:
  assumes "producer cfg j h st = Some y" and "length (arr (buffer st)) = 0"
  shows False
  using assms
proof (induction rule: producer.raw_induct [rotated 1, consumes 1])
  case (1 producer cfg j h st y)
  from 1(3) have "iteration cfg j h st = Next (filled st)"
    by (simp add: iteration_unfold emit_filled LastIndexByte_def)
  with 1(2) have "producer cfg j h (filled st) = Some y"
    by simp
  moreover from 1(3) have "length (arr (buffer (filled st))) = 0"
    by (simp add: filled_simps)
  ultimately show ?case
    by (rule 1(1))
qed

lemma Run_never_returns:
  assumes "BytesPerWorker (config p) = 0" and "0 \<le> NumberOfWorkers (config p)"
  shows "Run p j = None"
proof (cases "Run p j")
  case None
  then show ?thesis .
next
  case (Some y)
  with assms have "producer (config p) j (header p) (started p) = Some y"
    by (simp add: Run_producer)
  moreover from assms(1) have "length (arr (buffer (started p :: 'a loop_state))) = 0"
    by (simp add: started_simps)
  ultimately show ?thesis
    by (auto dest: producer_empty_buffer)
qed

text \<open>
  A stream that fits in one fill of the buffer: the first iteration reads all of it, the
  second one meets the end of the stream.
\<close>

lemma single_fill:
  assumes "pending (reader p) \<noteq> []"
    and "length (pending (reader p)) \<le> nat (BytesPerWorker (config p))"
    and "failure (reader p) = None"
    and "0 < NumberOfWorkers (config p)"
    and "length (pending (reader p)) < 2 ^ 64"
  shows "Run p j =
           Some (trace (started p) @
                 (case LastIndexByte (pending (reader p)) LF of
                    None \<Rightarrow> []
                  | Some k \<Rightarrow> [chunk j (header p) (take k (pending (reader p)))]) @
                 [Close, Wait], Returned None)"
proof -
  define d where "d = pending (reader p)"
  define c where "c = nat (BytesPerWorker (config p))"
  let ?st = "started p :: 'a loop_state"
  from assms(1) have "0 < length d"
    by (simp add: d_def)
  moreover from assms(2) have "length d \<le> c"
    by (simp add: c_def d_def)
  ultimately have c: "0 < c" "length d \<le> c" "d \<noteq> []"
    by (simp_all del: length_greater_0_conv) auto
  then have pos: "0 \<le> BytesPerWorker (config p)" "0 \<le> NumberOfWorkers (config p)"
    using assms(4) by (simp_all add: c_def)
  have take: "take c d = d" using c by simp
  have e: "emit (config p) j (header p) (filled ?st) =
      (case LastIndexByte d LF of
         None \<Rightarrow> Next (filled ?st)
       | Some k \<Rightarrow> Next ((filled ?st)\<lparr>trace := trace ?st @ [chunk j (header p) (take k d)],
                     buffer := append_slice (make_slice c) (drop k d)\<rparr>))"
    using assms(4) emit_filled [of ?st c "config p" j "header p"] take
    by (simp add: started_simps c_def d_def split: option.split)
  have it: "iteration (config p) j (header p) ?st = emit (config p) j (header p) (filled ?st)"
    using c assms(3) by (simp add: iteration_unfold started_simps c_def [symmetric] d_def [symmetric])
  have nz: "(of_nat (length d) :: 64 word) \<noteq> 0"
  proof -
    from assms(5) have "unat (0 :: 64 word) + length d < 2 ^ 64" by (simp add: d_def)
    then have "unat ((0 :: 64 word) + of_nat (length d)) = unat (0 :: 64 word) + length d"
      by (rule unat_tot_add)
    with c(3) show ?thesis by (auto simp: unat_0_iff [symmetric] simp del: unat_0_iff unat_eq_0)
  qed
  show ?thesis
  proof (cases "LastIndexByte d LF")
    case None
    let ?st1 = "filled ?st"
    have st1: "pending (rd ?st1) = []" "failure (rd ?st1) = None" "tot ?st1 \<noteq> 0"
      "0 < length (arr (buffer ?st1))" "trace ?st1 = trace ?st"
      using c assms(3) nz take
      by (simp_all add: filled_simps started_simps c_def [symmetric] d_def [symmetric])
    have "producer (config p) j (header p) ?st = producer (config p) j (header p) ?st1"
      using it e None by (subst producer.simps) simp
    also have "\<dots> = Some (trace ?st @ [Close, Wait], Returned None)"
      using st1 by (simp add: producer_at_end)
    finally show ?thesis
      using pos None by (simp add: Run_producer d_def)
  next
    case (Some k)
    let ?st1 = "(filled ?st)\<lparr>trace := trace ?st @ [chunk j (header p) (take k d)],
                     buffer := append_slice (make_slice c) (drop k d)\<rparr>"
    have "length (drop k d) \<le> c" using c by simp
    then have st1: "pending (rd ?st1) = []" "failure (rd ?st1) = None" "tot ?st1 \<noteq> 0"
      "0 < length (arr (buffer ?st1))" "trace ?st1 = trace ?st @ [chunk j (header p) (take k d)]"
      using c assms(3) nz take
      by (simp_all add: filled_simps started_simps append_make_cap c_def [symmetric] d_def [symmetric])
    have "producer (config p) j (header p) ?st = producer (config p) j (header p) ?st1"
      using it e Some by (subst producer.simps) simp
    also have "\<dots> = Some ((trace ?st @ [chunk j (header p) (take k d)]) @ [Close, Wait], Returned None)"
      using st1 by (simp add: producer_at_end)
    finally show ?thesis
      using pos Some by (simp add: Run_producer d_def)
  qed
qed

section \<open>The chunks of a run\<close>





section \<open>The end of the stream\<close>

text \<open>
  Claim C3, as the code has it. The iteration that meets the end of the stream sends
  nothing, whatever bytes the buffer holds: the loop is left, the channel is closed, the
  workers are waited for and \<open>Run\<close> returns nil. There is no final chunk. So for a stream
  that fits in one fill of the buffer the only chunk is the bytes before the last line
  break of the stream, and there is no chunk at all when the stream has no line break:
  the last line break and an unterminated last line after it are not sent.
\<close>

theorem C3_no_final_chunk:
  fixes j :: 'j
  shows "(iteration cfg j h st = Break st' \<longrightarrow>
            trace st' = trace st
            \<and> producer cfg j h st = Some (trace st @ [Close, Wait], Returned None))
     \<and> (pending (reader p) \<noteq> [] \<and> length (pending (reader p)) \<le> nat (BytesPerWorker (config p))
          \<and> failure (reader p) = None \<and> 0 < NumberOfWorkers (config p)
          \<and> length (pending (reader p)) < 2 ^ 64 \<longrightarrow>
            Run p j =
              Some (Add (NumberOfWorkers (config p)) # replicate (nat (NumberOfWorkers (config p))) Go @
                    (case LastIndexByte (pending (reader p)) LF of
                       None \<Rightarrow> []
                     | Some k \<Rightarrow> [chunk j (header p) (take k (pending (reader p)))]) @
                    [Close, Wait], Returned None))"
proof (intro conjI impI)
  assume b: "iteration cfg j h st = Break st'"
  then show "trace st' = trace st"
    by (rule iteration_Break(1))
  from b iteration_Break(1) [OF b] show "producer cfg j h st = Some (trace st @ [Close, Wait], Returned None)"
    by (subst producer.simps) simp
next
  assume "pending (reader p) \<noteq> [] \<and> length (pending (reader p)) \<le> nat (BytesPerWorker (config p))
          \<and> failure (reader p) = None \<and> 0 < NumberOfWorkers (config p)
          \<and> length (pending (reader p)) < 2 ^ 64"
  then show "Run p j =
              Some (Add (NumberOfWorkers (config p)) # replicate (nat (NumberOfWorkers (config p))) Go @
                    (case LastIndexByte (pending (reader p)) LF of
                       None \<Rightarrow> []
                     | Some k \<Rightarrow> [chunk j (header p) (take k (pending (reader p)))]) @
                    [Close, Wait], Returned None)"
    using single_fill [of p j] by (simp add: started_simps)
qed

lemma C3_eval:
  "iteration \<lparr>NumberOfWorkers = 1, HeaderConfig = \<lparr>HasHeader = False, Separator = '',''\<rparr>, BytesPerWorker = 3\<rparr>
      () []
      \<lparr>rd = \<lparr>pending = [], failure = None\<rparr>, tot = 3,
       buffer = \<lparr>arr = [LF, CHR ''b'', CHR 0x00], len = 2\<rparr>,
       trace = [Add 1, Go, chunk () [] ''a'']\<rparr>
    = Break \<lparr>rd = \<lparr>pending = [], failure = None\<rparr>, tot = 3,
       buffer = \<lparr>arr = [LF, CHR ''b'', CHR 0x00], len = 0\<rparr>,
       trace = [Add 1, Go, chunk () [] ''a'']\<rparr>"
  by code_simp

theorem C3_no_final_chunk_witness:
  "producer \<lparr>NumberOfWorkers = 1, HeaderConfig = \<lparr>HasHeader = False, Separator = '',''\<rparr>, BytesPerWorker = 3\<rparr>
      () []
      \<lparr>rd = \<lparr>pending = [], failure = None\<rparr>, tot = 3,
       buffer = \<lparr>arr = [LF, CHR ''b'', CHR 0x00], len = 2\<rparr>,
       trace = [Add 1, Go, chunk () [] ''a'']\<rparr>
     = Some ([Add 1, Go, chunk () [] ''a'', Close, Wait], Returned None)
   \<and> Run \<lparr>reader = \<lparr>pending = ''ab'' @ [LF] @ ''cd'', failure = None\<rparr>, header = [],
          config = \<lparr>NumberOfWorkers = 1, HeaderConfig = \<lparr>HasHeader = False, Separator = '',''\<rparr>,
                    BytesPerWorker = 8\<rparr>\<rparr> ()
     = Some ([Add 1, Go, chunk () [] ''ab'', Close, Wait], Returned None)"
proof -
  have k: "LastIndexByte (''ab'' @ [LF] @ ''cd'') LF = Some 2"
    by code_simp
  show ?thesis
    using C3_eval k
      C3_no_final_chunk [of
        "\<lparr>NumberOfWorkers = 1, HeaderConfig = \<lparr>HasHeader = False, Separator = '',''\<rparr>, BytesPerWorker = 3\<rparr>"
        "()" "[]"
        "\<lparr>rd = \<lparr>pending = [], failure = None\<rparr>, tot = 3,
          buffer = \<lparr>arr = [LF, CHR ''b'', CHR 0x00], len = 2\<rparr>,
          trace = [Add 1, Go, chunk () [] ''a'']\<rparr>"
        "\<lparr>rd = \<lparr>pending = [], failure = None\<rparr>, tot = 3,
          buffer = \<lparr>arr = [LF, CHR ''b'', CHR 0x00], len = 0\<rparr>,
          trace = [Add 1, Go, chunk () [] ''a'']\<rparr>"
        "\<lparr>reader = \<lparr>pending = ''ab'' @ [LF] @ ''cd'', failure = None\<rparr>, header = [],
          config = \<lparr>NumberOfWorkers = 1, HeaderConfig = \<lparr>HasHeader = False, Separator = '',''\<rparr>,
                    BytesPerWorker = 8\<rparr>\<rparr>"]
    by simp
qed

text \<open>
  The claim as stated fails: with a chunk size of 3 bytes the stream \<open>a\<close>, line break,
  \<open>b\<close> leaves the buffer holding the line break and \<open>b\<close> after the first iteration, and
  \<open>Run\<close> closes the channel having sent the chunk \<open>a\<close> only.
\<close>

theorem C3_final_bytes_counterexample:
  "iteration \<lparr>NumberOfWorkers = 1, HeaderConfig = \<lparr>HasHeader = False, Separator = '',''\<rparr>, BytesPerWorker = 3\<rparr>
      () []
      (started \<lparr>reader = \<lparr>pending = ''a'' @ [LF] @ ''b'', failure = None\<rparr>, header = [],
          config = \<lparr>NumberOfWorkers = 1, HeaderConfig = \<lparr>HasHeader = False, Separator = '',''\<rparr>,
                    BytesPerWorker = 3\<rparr>\<rparr>)
    = Next \<lparr>rd = \<lparr>pending = [], failure = None\<rparr>, tot = 3,
       buffer = \<lparr>arr = [LF, CHR ''b'', CHR 0x00], len = 2\<rparr>,
       trace = [Add 1, Go, chunk () [] ''a'']\<rparr>
   \<and> contents \<lparr>arr = [LF, CHR ''b'', CHR 0x00], len = 2\<rparr> = [LF, CHR ''b'']
   \<and> Run \<lparr>reader = \<lparr>pending = ''a'' @ [LF] @ ''b'', failure = None\<rparr>, header = [],
          config = \<lparr>NumberOfWorkers = 1, HeaderConfig = \<lparr>HasHeader = False, Separator = '',''\<rparr>,
                    BytesPerWorker = 3\<rparr>\<rparr> ()
     = Some ([Add 1, Go, chunk () [] ''a'', Close, Wait], Returned None)"
  by code_simp

section \<open>Returning an error\<close>

lemma closing_error: "closing (Returned (Some e)) = []"
  by (simp add: closing_def)

text \<open>
  Claim C5 asks that the channel is closed and the workers are waited for on every path on
  which \<open>Run\<close> returns an error. The code does neither: whenever \<open>Run\<close> returns an error,
  all its workers have been started, and its trace holds no \<open>Close\<close> and no \<open>Wait\<close>. The
  two runs below return \<open>EmptyFileError\<close> and a read error.
\<close>

theorem C5_error_return_skips_close_and_wait:
  assumes "Run p j = Some (tr, Returned (Some e))"
  shows "Close \<notin> set tr \<and> Wait \<notin> set tr
         \<and> length (filter (\<lambda>x. x = Go) tr) = nat (NumberOfWorkers (config p))"
  using assms
proof (cases rule: Run_cases)
  case (1 e')
  then show ?thesis by simp
next
  case (2 e')
  from producer_trace [OF 2(2)] obtain xs where
    "tr = trace (started p) @ map (chunk j (header p)) xs"
    by (auto simp: closing_error)
  then show ?thesis
    by (auto simp: started_simps filter_map comp_def)
qed

theorem C5_error_return_skips_close_and_wait_witness:
  "Run \<lparr>reader = \<lparr>pending = [], failure = None\<rparr>, header = [],
        config = \<lparr>NumberOfWorkers = 2, HeaderConfig = \<lparr>HasHeader = False, Separator = '',''\<rparr>,
                  BytesPerWorker = 4\<rparr>\<rparr> ()
     = Some ([Add 2, Go, Go], Returned (Some EmptyFileError))
   \<and> Run \<lparr>reader = \<lparr>pending = ''a'' @ [LF] @ ''bc'', failure = Some ''read error''\<rparr>, header = [],
        config = \<lparr>NumberOfWorkers = 2, HeaderConfig = \<lparr>HasHeader = False, Separator = '',''\<rparr>,
                  BytesPerWorker = 3\<rparr>\<rparr> ()
     = Some ([Add 2, Go, Go, chunk () [] ''a''], Returned (Some (ReadFailure ''read error'')))
   \<and> Close \<notin> set [Add 2, Go, Go, chunk () [] ''a'']
   \<and> Wait \<notin> set [Add 2, Go, Go, chunk () [] ''a'']"
proof -
  have r1: "Run \<lparr>reader = \<lparr>pending = [], failure = None\<rparr>, header = [],
        config = \<lparr>NumberOfWorkers = 2, HeaderConfig = \<lparr>HasHeader = False, Separator = '',''\<rparr>,
                  BytesPerWorker = 4\<rparr>\<rparr> ()
     = Some ([Add 2, Go, Go], Returned (Some EmptyFileError))"
    by code_simp
  have r2: "Run \<lparr>reader = \<lparr>pending = ''a'' @ [LF] @ ''bc'', failure = Some ''read error''\<rparr>, header = [],
        config = \<lparr>NumberOfWorkers = 2, HeaderConfig = \<lparr>HasHeader = False, Separator = '',''\<rparr>,
                  BytesPerWorker = 3\<rparr>\<rparr> ()
     = Some ([Add 2, Go, Go, chunk () [] ''a''], Returned (Some (ReadFailure ''read error'')))"
    by code_simp
  from C5_error_return_skips_close_and_wait [OF r2] r1 r2 show ?thesis
    by blast
qed

section \<open>The empty file\<close>

text \<open>
  Claim C8, as the code has it. \<open>tot\<close> counts the bytes read by the loop of \<open>Run\<close> only, so
  \<open>Run\<close> returns \<open>EmptyFileError\<close> exactly when the stream ends cleanly and no byte is left
  in it when \<open>Run\<close> starts: with header mode disabled when the whole stream is empty,
  with header mode enabled when the stream is its header line and nothing else. The chunk
  size is at least one byte, and the stream is shorter than \<open>2 ^ 64\<close> bytes, which \<open>tot\<close>
  can count.
\<close>

theorem C8_EmptyFile_when_nothing_is_left:
  assumes "NewProcessor (Some r) cfg = Inr p"
    and "0 < BytesPerWorker (config p)"
    and "length (pending r) < 2 ^ 64"
  shows "(\<exists>tr. Run p j = Some (tr, Returned (Some EmptyFileError)))
         \<longleftrightarrow> failure r = None
             \<and> pending r = (if HasHeader (HeaderConfig (config p))
                            then takeWhile (\<lambda>c. c \<noteq> LF) (pending r) @ [LF] else [])"
proof -
  note np = NewProcessor_Inr [OF assms(1)]
  have rd: "failure (reader p) = failure r"
    and len: "length (pending (reader p)) \<le> length (pending r)"
    and pend: "pending (reader p) = [] \<longleftrightarrow>
           pending r = (if HasHeader (HeaderConfig (config p))
                        then takeWhile (\<lambda>c. c \<noteq> LF) (pending r) @ [LF] else [])"
    using np(3) by (auto split: if_splits simp: takeWhile_until)
  from len assms(3) have len: "length (pending (reader p)) < 2 ^ 64" by simp
  from np(2) assms(2) have run: "Run p j = producer (config p) j (header p) (started p)"
    by (simp add: Run_producer)
  have "(\<exists>tr. Run p j = Some (tr, Returned (Some EmptyFileError)))
         \<longleftrightarrow> pending (reader p) = [] \<and> failure r = None"
  proof
    assume "\<exists>tr. Run p j = Some (tr, Returned (Some EmptyFileError))"
    then obtain tr where "producer (config p) j (header p) (started p) = Some (tr, Returned (Some EmptyFileError))"
      using run by auto
    from producer_EmptyFile [OF this] assms(2) len rd
    show "pending (reader p) = [] \<and> failure r = None"
      by (simp add: started_simps)
  next
    assume "pending (reader p) = [] \<and> failure r = None"
    with assms(2) rd have "producer (config p) j (header p) (started p) =
        Some (trace (started p), Returned (Some EmptyFileError))"
      by (subst producer_at_end) (simp_all add: started_simps)
    with run show "\<exists>tr. Run p j = Some (tr, Returned (Some EmptyFileError))"
      by simp
  qed
  with pend show ?thesis by auto
qed

lemma C8_eval_header_only:
  "NewProcessor (Some \<lparr>pending = ''x,y'' @ [LF], failure = None\<rparr>)
     (Some \<lparr>NumberOfWorkers = 1, HeaderConfig = \<lparr>HasHeader = True, Separator = '',''\<rparr>,
            BytesPerWorker = 4\<rparr>)
   = Inr \<lparr>reader = \<lparr>pending = [], failure = None\<rparr>, header = [''x'', ''y''],
          config = \<lparr>NumberOfWorkers = 1, HeaderConfig = \<lparr>HasHeader = True, Separator = '',''\<rparr>,
                    BytesPerWorker = 4\<rparr>\<rparr>"
  by code_simp

lemma C8_eval_no_header:
  "NewProcessor (Some \<lparr>pending = ''x,y'' @ [LF], failure = None\<rparr>)
     (Some \<lparr>NumberOfWorkers = 1, HeaderConfig = \<lparr>HasHeader = False, Separator = '',''\<rparr>,
            BytesPerWorker = 4\<rparr>)
   = Inr \<lparr>reader = \<lparr>pending = ''x,y'' @ [LF], failure = None\<rparr>, header = [],
          config = \<lparr>NumberOfWorkers = 1, HeaderConfig = \<lparr>HasHeader = False, Separator = '',''\<rparr>,
                    BytesPerWorker = 4\<rparr>\<rparr>"
  by code_simp

theorem C8_EmptyFile_when_nothing_is_left_witness:
  "(\<exists>tr. Run \<lparr>reader = \<lparr>pending = [], failure = None\<rparr>, header = [''x'', ''y''],
          config = \<lparr>NumberOfWorkers = 1, HeaderConfig = \<lparr>HasHeader = True, Separator = '',''\<rparr>,
                    BytesPerWorker = 4\<rparr>\<rparr> () = Some (tr, Returned (Some EmptyFileError)))
   \<and> \<not> (\<exists>tr. Run \<lparr>reader = \<lparr>pending = ''x,y'' @ [LF], failure = None\<rparr>, header = [],
          config = \<lparr>NumberOfWorkers = 1, HeaderConfig = \<lparr>HasHeader = False, Separator = '',''\<rparr>,
                    BytesPerWorker = 4\<rparr>\<rparr> () = Some (tr, Returned (Some EmptyFileError)))"
  using C8_EmptyFile_when_nothing_is_left [OF C8_eval_header_only, of "()"]
    C8_EmptyFile_when_nothing_is_left [OF C8_eval_no_header, of "()"]
  by simp

text \<open>
  The claim as stated fails: a stream that holds a header line and nothing else is not
  empty, and \<open>Run\<close> returns \<open>EmptyFileError\<close> for it.
\<close>

theorem C8_header_only_counterexample:
  "NewProcessor (Some \<lparr>pending = ''x,y'' @ [LF], failure = None\<rparr>)
     (Some \<lparr>NumberOfWorkers = 1, HeaderConfig = \<lparr>HasHeader = True, Separator = '',''\<rparr>,
            BytesPerWorker = 4\<rparr>)
   = Inr \<lparr>reader = \<lparr>pending = [], failure = None\<rparr>, header = [''x'', ''y''],
          config = \<lparr>NumberOfWorkers = 1, HeaderConfig = \<lparr>HasHeader = True, Separator = '',''\<rparr>,
                    BytesPerWorker = 4\<rparr>\<rparr>
   \<and> Run \<lparr>reader = \<lparr>pending = [], failure = None\<rparr>, header = [''x'', ''y''],
          config = \<lparr>NumberOfWorkers = 1, HeaderConfig = \<lparr>HasHeader = True, Separator = '',''\<rparr>,
                    BytesPerWorker = 4\<rparr>\<rparr> ()
     = Some ([Add 1, Go], Returned (Some EmptyFileError))"
  by code_simp

section \<open>The header\<close>

lemma sublist_trans: "sublist xs ys \<Longrightarrow> sublist ys zs \<Longrightarrow> sublist xs zs"
  by (rule sublist_order.order_trans)

lemma explode_sublist: "l \<in> set (explode s) \<Longrightarrow> sublist l s"
proof (induction s rule: explode.induct)
  case (1 s)
  show ?case
  proof (cases "s = []")
    case True
    with 1(2) show ?thesis by (simp add: explode.simps)
  next
    case False
    with 1(2) consider "l = take (rune_width s) s" | "l \<in> set (explode (drop (rune_width s) s))"
      by (subst (asm) explode.simps) auto
    then show ?thesis
    proof cases
      case 1
      then show ?thesis by simp
    next
      case 2
      with 1(1) [OF False] have "sublist l (drop (rune_width s) s)" by simp
      then show ?thesis by (rule sublist_trans) simp
    qed
  qed
qed

lemma Split_sublist: "l \<in> set (Split s sep) \<Longrightarrow> sublist l s"
proof (induction s sep rule: Split.induct)
  case (1 s sep)
  show ?case
  proof (cases "sep = []")
    case True
    with 1(2) show ?thesis by (simp add: Split.simps explode_sublist)
  next
    case False
    show ?thesis
    proof (cases "Index s sep")
      case None
      with False 1(2) show ?thesis by (simp add: Split.simps)
    next
      case (Some m)
      with False 1(2) consider "l = take m s" | "l \<in> set (Split (drop (m + length sep) s) sep)"
        by (subst (asm) Split.simps) auto
      then show ?thesis
      proof cases
        case 1
        then show ?thesis by simp
      next
        case 2
        with 1(1) [OF False Some] have "sublist l (drop (m + length sep) s)" by simp
        then show ?thesis by (rule sublist_trans) simp
      qed
    qed
  qed
qed

lemma invocations_rows:
  assumes "(hs, ls) \<in> set (invocations tr)"
  shows "\<exists>d\<in>set (sent tr). hs = data_header d \<and> ls = Split (rows d) LineBreak"
  using assms by (auto simp: invocations_def worker_def)

text \<open>
  Claim C6. With header mode enabled and a first line \<open>line\<close> (the bytes before the first
  line break), \<open>NewProcessor\<close> returns a processor whose header is \<open>line\<close>, without the
  line break, split by the configured separator. The reader is left at \<open>rest\<close>, the bytes
  after that line break, and every row that a run of this processor hands to the job is a
  run of consecutive bytes of \<open>rest\<close>, handed over with that header: the bytes of the header
  line are not among the rows.
\<close>

theorem C6_header_is_first_line:
  assumes "LF \<notin> set line"
    and "HasHeader (HeaderConfig (config_or_default cfg))"
    and "0 \<le> NumberOfWorkers (config_or_default cfg)"
  shows "\<exists>p. NewProcessor (Some \<lparr>pending = line @ [LF] @ rest, failure = f\<rparr>) cfg = Inr p
           \<and> GetHeader p = Split line (Separator (HeaderConfig (config_or_default cfg)))
           \<and> pending (reader p) = rest
           \<and> (\<forall>tr out. Run p j = Some (tr, out) \<longrightarrow>
                 (\<forall>(hs, ls)\<in>set (invocations tr). hs = GetHeader p \<and> (\<forall>l\<in>set ls. sublist l rest)))"
proof -
  let ?p = "\<lparr>reader = \<lparr>pending = rest, failure = f\<rparr>,
             header = Split line (Separator (HeaderConfig (config_or_default cfg))),
             config = config_or_default cfg\<rparr>"
  have np: "NewProcessor (Some \<lparr>pending = line @ [LF] @ rest, failure = f\<rparr>) cfg = Inr ?p"
    using assms NewProcessor_header [of line cfg rest f] by simp
  have "hs = GetHeader ?p \<and> (\<forall>l\<in>set ls. sublist l rest)"
    if run: "Run ?p j = Some (tr, out)" and inv: "(hs, ls) \<in> set (invocations tr)"
    for tr out hs ls
  proof -
    from Run_trace [OF run] obtain xs where
      xs: "sent tr = map (\<lambda>x. \<lparr>job = j, data_header = header ?p, rows = x\<rparr>) xs"
        "\<forall>x\<in>set xs. sublist (x @ [LF]) (pending (reader ?p))"
      by blast
    from invocations_rows [OF inv] obtain d where
      d: "d \<in> set (sent tr)" "hs = data_header d" "ls = Split (rows d) LineBreak"
      by blast
    from d(1) xs(1) obtain x where x: "x \<in> set xs" "d = \<lparr>job = j, data_header = header ?p, rows = x\<rparr>"
      by auto
    with xs(2) have "sublist (x @ [LF]) rest" by simp
    then have "sublist x rest"
      by (rule sublist_trans [rotated]) simp
    then have "\<forall>l\<in>set ls. sublist l rest"
      using d(3) x(2) by (auto dest!: Split_sublist intro: sublist_trans)
    with d(2) x(2) show ?thesis by (simp add: GetHeader_def)
  qed
  with np show ?thesis
    by (intro exI [of _ ?p]) (auto simp: GetHeader_def)
qed

theorem C6_header_is_first_line_witness:
  "GetHeader \<lparr>reader = \<lparr>pending = ''1,2'' @ [LF], failure = None\<rparr>, header = [''x'', ''y''],
          config = \<lparr>NumberOfWorkers = 1, HeaderConfig = \<lparr>HasHeader = True, Separator = '',''\<rparr>,
                    BytesPerWorker = 8\<rparr>\<rparr> = [''x'', ''y'']
   \<and> NewProcessor (Some \<lparr>pending = ''x,y'' @ [LF] @ ''1,2'' @ [LF], failure = None\<rparr>)
        (Some \<lparr>NumberOfWorkers = 1, HeaderConfig = \<lparr>HasHeader = True, Separator = '',''\<rparr>,
               BytesPerWorker = 8\<rparr>)
      = Inr \<lparr>reader = \<lparr>pending = ''1,2'' @ [LF], failure = None\<rparr>, header = [''x'', ''y''],
          config = \<lparr>NumberOfWorkers = 1, HeaderConfig = \<lparr>HasHeader = True, Separator = '',''\<rparr>,
                    BytesPerWorker = 8\<rparr>\<rparr>
   \<and> Run \<lparr>reader = \<lparr>pending = ''1,2'' @ [LF], failure = None\<rparr>, header = [''x'', ''y''],
          config = \<lparr>NumberOfWorkers = 1, HeaderConfig = \<lparr>HasHeader = True, Separator = '',''\<rparr>,
                    BytesPerWorker = 8\<rparr>\<rparr> ()
      = Some ([Add 1, Go, chunk () [''x'', ''y''] ''1,2'', Close, Wait], Returned None)
   \<and> invocations [Add 1, Go, chunk () [''x'', ''y''] ''1,2'', Close, Wait] = [([''x'', ''y''], [''1,2''])]
   \<and> sublist ''1,2'' (''1,2'' @ [LF])"
proof -
  let ?c = "\<lparr>NumberOfWorkers = 1, HeaderConfig = \<lparr>HasHeader = True, Separator = '',''\<rparr>,
             BytesPerWorker = 8\<rparr>"
  let ?p = "\<lparr>reader = \<lparr>pending = ''1,2'' @ [LF], failure = None\<rparr>, header = [''x'', ''y''],
             config = ?c\<rparr>"
  let ?tr = "[Add 1, Go, chunk () [''x'', ''y''] ''1,2'', Close, Wait]"
  have np: "NewProcessor (Some \<lparr>pending = ''x,y'' @ [LF] @ ''1,2'' @ [LF], failure = None\<rparr>) (Some ?c)
              = Inr ?p"
    by code_simp
  have run: "Run ?p () = Some (?tr, Returned None)"
    by code_simp
  have inv: "invocations ?tr = [([''x'', ''y''], [''1,2''])]"
    by code_simp
  have sp: "Split ''x,y'' '','' = [''x'', ''y'']"
    by code_simp
  from C6_header_is_first_line [of "''x,y''" "Some ?c" "''1,2'' @ [LF]" None "()"]
  obtain p where p: "NewProcessor (Some \<lparr>pending = ''x,y'' @ [LF] @ ''1,2'' @ [LF], failure = None\<rparr>) (Some ?c) = Inr p"
      "GetHeader p = Split ''x,y'' '',''"
      "\<forall>tr out. Run p () = Some (tr, out) \<longrightarrow>
         (\<forall>(hs, ls)\<in>set (invocations tr). hs = GetHeader p \<and> (\<forall>l\<in>set ls. sublist l (''1,2'' @ [LF])))"
    by (auto simp: config_or_default_def)
  from p(1) np have eq: "p = ?p" by simp
  from p(3) run inv have "sublist ''1,2'' (''1,2'' @ [LF])"
    unfolding eq by fastforce
  with p(2) sp np run inv show ?thesis
    unfolding eq by simp
qed

section \<open>The configuration of a processor\<close>




section \<open>The fields of the header\<close>

lemma Split_length: "sep \<noteq> [] \<Longrightarrow> length (Split s sep) = Count s sep + 1"
proof (induction s sep rule: Split.induct)
  case (1 s sep)
  show ?case
  proof (cases "Index s sep")
    case None
    with 1(2) show ?thesis
      by (simp add: Split.simps [of s] Count.simps [of s])
  next
    case (Some m)
    with 1 show ?thesis
      by (simp add: Split.simps [of s] Count.simps [of s])
  qed
qed

lemma Split_empty: "sep \<noteq> [] \<Longrightarrow> Split [] sep = [[]]"
  by (simp add: Split.simps)

lemma Index_single_None: "Index s [c] = None \<longleftrightarrow> c \<notin> set s"
  by (induction s) auto

lemma Index_single_Some:
  "Index s [c] = Some m \<Longrightarrow> m < length s \<and> s ! m = c \<and> c \<notin> set (take m s)"
proof (induction s arbitrary: m)
  case Nil
  then show ?case by simp
next
  case (Cons a s)
  show ?case
  proof (cases "a = c")
    case True
    with Cons.prems show ?thesis by simp
  next
    case False
    with Cons.prems obtain k where k: "Index s [c] = Some k" "m = Suc k" by auto
    with Cons.IH [OF k(1)] False show ?thesis by simp
  qed
qed

lemma Count_single: "Count s [c] = count_list s c"
proof (induction s "[c]" rule: Count.induct)
  case (1 s)
  show ?case
  proof (cases "Index s [c]")
    case None
    then have "c \<notin> set s" by (simp add: Index_single_None)
    then have "count_list s c = 0" by (simp add: count_list_0_iff)
    with None show ?thesis by (simp add: Count.simps [of s])
  next
    case (Some m)
    note m = Index_single_Some [OF Some]
    then have s: "s = take m s @ c # drop (Suc m) s"
      using id_take_nth_drop [of m s] by simp
    from m have "count_list (take m s) c = 0" by (simp add: count_list_0_iff)
    then have "count_list s c = Suc (count_list (drop (Suc m) s) c)"
      by (subst s) simp
    moreover from 1 [OF _ Some] have "Count (drop (Suc m) s) [c] = count_list (drop (Suc m) s) c"
      by simp
    ultimately show ?thesis
      using Some by (simp add: Count.simps [of s])
  qed
qed

text \<open>
  Claim C10, as the code has it. With header mode enabled and a separator that is not
  empty, the header of a first line has one field more than the line has instances of the
  separator, counted from left to right without overlap as \<^verbatim>\<open>strings.Count\<close> does; for a
  separator of one byte that is the number of bytes of the line equal to it. For an empty
  first line the header is the one-element sequence holding the empty string.
\<close>

theorem C10_header_field_count:
  assumes "LF \<notin> set line"
    and "HasHeader (HeaderConfig (config_or_default cfg))"
    and "0 \<le> NumberOfWorkers (config_or_default cfg)"
    and "Separator (HeaderConfig (config_or_default cfg)) \<noteq> []"
  shows "\<exists>p. NewProcessor (Some \<lparr>pending = line @ [LF] @ rest, failure = f\<rparr>) cfg = Inr p
           \<and> length (GetHeader p) = Count line (Separator (HeaderConfig (config_or_default cfg))) + 1
           \<and> (\<forall>c. Separator (HeaderConfig (config_or_default cfg)) = [c] \<longrightarrow>
                  length (GetHeader p) = count_list line c + 1)
           \<and> (line = [] \<longrightarrow> GetHeader p = [[]])"
proof -
  let ?sep = "Separator (HeaderConfig (config_or_default cfg))"
  let ?p = "\<lparr>reader = \<lparr>pending = rest, failure = f\<rparr>, header = Split line ?sep,
             config = config_or_default cfg\<rparr>"
  have "NewProcessor (Some \<lparr>pending = line @ [LF] @ rest, failure = f\<rparr>) cfg = Inr ?p"
    using assms(1-3) NewProcessor_header [of line cfg rest f] by simp
  moreover have "length (GetHeader ?p) = Count line ?sep + 1"
    using assms(4) by (simp add: GetHeader_def Split_length)
  moreover have "length (GetHeader ?p) = count_list line c + 1" if "?sep = [c]" for c
    using that by (simp add: GetHeader_def Split_length Count_single)
  moreover have "GetHeader ?p = [[]]" if "line = []"
    using that assms(4) by (simp add: GetHeader_def Split_empty)
  ultimately show ?thesis
    by (intro exI [of _ ?p]) blast
qed

theorem C10_header_field_count_witness:
  "(\<exists>p. NewProcessor (Some \<lparr>pending = ''Index,Height,Weight'' @ [LF] @ ''1,65,112'' @ [LF], failure = None\<rparr>) None = Inr p
         \<and> length (GetHeader p) = 3)
   \<and> (\<exists>p. NewProcessor (Some \<lparr>pending = [] @ [LF] @ ''1,65,112'' @ [LF], failure = None\<rparr>) None = Inr p
         \<and> GetHeader p = [[]])"
proof -
  have c: "count_list ''Index,Height,Weight'' (CHR '','') = 2"
    by code_simp
  have d: "config_or_default None = GetDefaultConfig"
    by (simp add: config_or_default_def)
  from C10_header_field_count [of "''Index,Height,Weight''" None "''1,65,112'' @ [LF]" None]
    C10_header_field_count [of "[]" None "''1,65,112'' @ [LF]" None] c
  show ?thesis
    by (auto simp: d GetDefaultConfig_def)
qed

text \<open>
  The claim as stated fails for the empty separator, which a configuration that sets
  \<open>HasHeader\<close> and no \<open>Separator\<close> has: \<^verbatim>\<open>strings.Split\<close> then cuts the line into its
  UTF-8 sequences, and the header of an empty first line is the empty sequence.
\<close>

theorem C10_empty_separator_counterexample:
  "NewProcessor (Some \<lparr>pending = [LF], failure = None\<rparr>)
     (Some \<lparr>NumberOfWorkers = 8, HeaderConfig = \<lparr>HasHeader = True, Separator = []\<rparr>,
            BytesPerWorker = 1024\<rparr>)
   = Inr \<lparr>reader = \<lparr>pending = [], failure = None\<rparr>, header = [],
          config = \<lparr>NumberOfWorkers = 8, HeaderConfig = \<lparr>HasHeader = True, Separator = []\<rparr>,
                    BytesPerWorker = 1024\<rparr>\<rparr>
   \<and> GetHeader \<lparr>reader = \<lparr>pending = [], failure = None\<rparr>, header = [],
          config = \<lparr>NumberOfWorkers = 8, HeaderConfig = \<lparr>HasHeader = True, Separator = []\<rparr>,
                    BytesPerWorker = 1024\<rparr>\<rparr> \<noteq> [[]]"
  by code_simp

section \<open>The remainder of a fill\<close>

text \<open>
  Claim C4 asks that the bytes from the last line break of a fill onward are the first
  bytes considered in the next fill. The code copies them to the front of a fresh buffer,
  but the next \<^verbatim>\<open>io.ReadFull(p.reader, buffer[:cap(buffer)])\<close> stores what it reads from
  index 0 of that buffer, over them, and \<^verbatim>\<open>buffer = buffer[:n]\<close> keeps the bytes read and
  nothing else. With a chunk size of 5 bytes and the stream of the four lines \<open>a\<close>, \<open>b\<close>,
  \<open>c\<close>, \<open>d\<close>, each ended by a line break, the first iteration sends the chunk of the lines
  \<open>a\<close> and \<open>b\<close> and leaves the buffer holding a line break and \<open>c\<close>; the second iteration
  reads the remaining three bytes over them and sends a line break and \<open>d\<close>.
\<close>

theorem C4_carried_bytes_overwritten:
  "iteration \<lparr>NumberOfWorkers = 1, HeaderConfig = \<lparr>HasHeader = False, Separator = '',''\<rparr>, BytesPerWorker = 5\<rparr>
      () []
      \<lparr>rd = \<lparr>pending = ''a'' @ [LF] @ ''b'' @ [LF] @ ''c'' @ [LF] @ ''d'' @ [LF], failure = None\<rparr>,
       tot = 0, buffer = make_slice 5, trace = []\<rparr>
    = Next \<lparr>rd = \<lparr>pending = [LF] @ ''d'' @ [LF], failure = None\<rparr>, tot = 5,
            buffer = \<lparr>arr = [LF] @ ''c'' @ [CHR 0x00, CHR 0x00, CHR 0x00], len = 2\<rparr>,
            trace = [chunk () [] (''a'' @ [LF] @ ''b'')]\<rparr>
   \<and> contents \<lparr>arr = [LF] @ ''c'' @ [CHR 0x00, CHR 0x00, CHR 0x00], len = 2\<rparr> = [LF] @ ''c''
   \<and> iteration \<lparr>NumberOfWorkers = 1, HeaderConfig = \<lparr>HasHeader = False, Separator = '',''\<rparr>, BytesPerWorker = 5\<rparr>
      () []
      \<lparr>rd = \<lparr>pending = [LF] @ ''d'' @ [LF], failure = None\<rparr>, tot = 5,
       buffer = \<lparr>arr = [LF] @ ''c'' @ [CHR 0x00, CHR 0x00, CHR 0x00], len = 2\<rparr>,
       trace = [chunk () [] (''a'' @ [LF] @ ''b'')]\<rparr>
    = Next \<lparr>rd = \<lparr>pending = [], failure = None\<rparr>, tot = 8,
            buffer = \<lparr>arr = [LF, CHR 0x00, CHR 0x00, CHR 0x00, CHR 0x00], len = 1\<rparr>,
            trace = [chunk () [] (''a'' @ [LF] @ ''b''), chunk () [] ([LF] @ ''d'')]\<rparr>"
  by code_simp

section \<open>The rows of a run\<close>

text \<open>
  Claim C1 asks that no line of the input is lost. For the stream and the chunk size above
  \<open>Run\<close> returns nil after two sends, and the job is called with the rows \<open>a\<close>, \<open>b\<close> and
  with the rows \<open>\<close> (empty), \<open>d\<close>: the line \<open>c\<close> is lost and an empty row that is no line
  of the input is delivered. The lines of the input are \<open>a\<close>, \<open>b\<close>, \<open>c\<close>, \<open>d\<close>.
\<close>

theorem C1_line_lost_between_fills:
  "Run \<lparr>reader = \<lparr>pending = ''a'' @ [LF] @ ''b'' @ [LF] @ ''c'' @ [LF] @ ''d'' @ [LF], failure = None\<rparr>,
        header = [],
        config = \<lparr>NumberOfWorkers = 1, HeaderConfig = \<lparr>HasHeader = False, Separator = '',''\<rparr>,
                  BytesPerWorker = 5\<rparr>\<rparr> ()
     = Some ([Add 1, Go, chunk () [] (''a'' @ [LF] @ ''b''), chunk () [] ([LF] @ ''d''), Close, Wait],
             Returned None)
   \<and> invocations [Add 1, Go, chunk () [] (''a'' @ [LF] @ ''b''), chunk () [] ([LF] @ ''d''), Close, Wait]
     = [([], [''a'', ''b'']), ([], ['''', ''d''])]
   \<and> Split (''a'' @ [LF] @ ''b'' @ [LF] @ ''c'' @ [LF] @ ''d'') LineBreak = [''a'', ''b'', ''c'', ''d'']"
  by code_simp

end
